theory Spec2Isabelle
  imports Complex_Main "HOL-Library.Multiset"
begin

section \<open>The wheel animation (\<open>createSpinningAnimation\<close> of \<open>bot.js\<close>)\<close>

text \<open>
  JavaScript numbers are modelled by the reals: \<open>Math.PI\<close> is \<open>pi\<close>, and the
  arithmetic of the source is exact arithmetic here.  Array lengths and frame counters
  are natural numbers, a winner index is an integer.
\<close>

definition POINTER_ANGLE :: real where
  "POINTER_ANGLE = 0"

definition FIXED_ROTATIONS :: nat where
  "FIXED_ROTATIONS = 4"

definition totalFrames :: nat where
  "totalFrames = 60"

definition slowDownFrames :: nat where
  "slowDownFrames = 20"

definition anglePerSegment :: "nat \<Rightarrow> real" where
  "anglePerSegment n = (2 * pi) / real n"

text \<open>The mid-angle of segment \<open>winnerIndex\<close> of a wheel of \<open>n\<close> segments at rotation 0.\<close>

definition winnerMidAngle :: "nat \<Rightarrow> int \<Rightarrow> real" where
  "winnerMidAngle n winnerIndex = ((of_int winnerIndex + 0.5) * anglePerSegment n) - (pi / 2)"

text \<open>
  The right-hand side of \<open>finalRotationRad\<close> with the two module constants it reads
  (\<open>totalRotations\<close>, which is \<open>FIXED_ROTATIONS\<close>, and \<open>POINTER_ANGLE\<close>) as
  parameters; \<open>finalRotationRad\<close> below is the source's value.
\<close>

definition rotationFor :: "nat \<Rightarrow> real \<Rightarrow> nat \<Rightarrow> int \<Rightarrow> real" where
  "rotationFor totalRotations pointer n winnerIndex =
     (real totalRotations * 2 * pi) + (pointer - winnerMidAngle n winnerIndex)"

definition finalRotationRad :: "nat \<Rightarrow> int \<Rightarrow> real" where
  "finalRotationRad n winnerIndex = rotationFor FIXED_ROTATIONS POINTER_ANGLE n winnerIndex"

definition easeOutCubic :: "real \<Rightarrow> real" where
  "easeOutCubic t = 1 - (1 - t) ^ 3"

definition progress :: "nat \<Rightarrow> real" where
  "progress frame = real frame / real (totalFrames - 1)"

definition frameAngle :: "real \<Rightarrow> nat \<Rightarrow> real" where
  "frameAngle final frame = easeOutCubic (progress frame) * final"

definition frameDelay :: "nat \<Rightarrow> nat" where
  "frameDelay frame =
     (if frame < totalFrames - slowDownFrames then 30
      else 50 + (frame - (totalFrames - slowDownFrames)) * 15)"

text \<open>
  Array elements: the names on the wheel are strings; reading an array out of range
  gives \<open>undefined\<close>.
\<close>

datatype jsval = Undefined | Str string

text \<open>
  The one error that the code modelled here can throw: the TypeError of reading a
  property of \<open>undefined\<close>.  A function that can throw returns a sum, \<open>Inl\<close> the error.
\<close>

datatype error = Thrown_TypeError

text \<open>
  The canvas that \<open>createWheelImage\<close> returns: the names drawn on the segments, the
  segment drawn in the brighter colour (the one whose index is \<open>winnerIndex\<close>, if there is
  one), the rotation of the wheel, and the angle of the fixed pointer.  For an empty list
  of names the function writes "No names" and returns before it draws wheel or pointer.
  For each name it calls \<open>displayName.split('')\<close>, which throws on \<open>undefined\<close>.
\<close>

record canvas =
  labels :: "jsval list"
  highlighted :: "int option"
  turned :: real
  pointer :: "real option"

definition createWheelImage :: "jsval list \<Rightarrow> int option \<Rightarrow> real \<Rightarrow> error + canvas" where
  "createWheelImage names winnerIndex rotation =
     (if length names = 0
      then Inr \<lparr>labels = [], highlighted = None, turned = 0, pointer = None\<rparr>
      else if Undefined \<in> set names then Inl Thrown_TypeError
      else Inr \<lparr>labels = names,
                 highlighted =
                   (case winnerIndex of
                      None \<Rightarrow> None
                    | Some w \<Rightarrow> if 0 \<le> w \<and> w < int (length names) then Some w else None),
                 turned = rotation,
                 pointer = Some POINTER_ANGLE\<rparr>)"

text \<open>One frame handed to the GIF encoder: the canvas and the delay set for it.\<close>

record frame =
  picture :: canvas
  delay :: nat

text \<open>
  The body of the frame loop: the wheel is drawn without highlight, and for the last
  five frames it is drawn again with the winner highlighted and that canvas is added.
\<close>

definition drawFrame :: "jsval list \<Rightarrow> int \<Rightarrow> real \<Rightarrow> nat \<Rightarrow> error + frame" where
  "drawFrame names winnerIndex final fr =
     (let angle = frameAngle final fr
      in case createWheelImage names None angle of
           Inl e \<Rightarrow> Inl e
         | Inr cnv \<Rightarrow>
             if fr \<ge> totalFrames - 5
             then (case createWheelImage names (Some winnerIndex) angle of
                     Inl e \<Rightarrow> Inl e
                   | Inr highlightCanvas \<Rightarrow> Inr \<lparr>picture = highlightCanvas, delay = frameDelay fr\<rparr>)
             else Inr \<lparr>picture = cnv, delay = frameDelay fr\<rparr>)"

text \<open>The frame loop over the given frame numbers; an error ends it.\<close>

fun addFrames :: "jsval list \<Rightarrow> int \<Rightarrow> real \<Rightarrow> nat list \<Rightarrow> error + frame list" where
  "addFrames names winnerIndex final [] = Inr []"
| "addFrames names winnerIndex final (fr # frs) =
     (case drawFrame names winnerIndex final fr of
        Inl e \<Rightarrow> Inl e
      | Inr f \<Rightarrow>
          (case addFrames names winnerIndex final frs of
             Inl e \<Rightarrow> Inl e
           | Inr fs \<Rightarrow> Inr (f # fs)))"

text \<open>The message sent to the channel: the GIF made of the frames.\<close>

record 'c spinMessage =
  channel :: 'c
  frames :: "frame list"

text \<open>
  \<open>Inr None\<close> is the \<open>null\<close> returned for an empty list of names, \<open>Inl\<close> an error thrown
  while a frame is drawn (nothing is sent then).
\<close>

definition createSpinningAnimation ::
  "jsval list \<Rightarrow> int \<Rightarrow> 'c \<Rightarrow> error + 'c spinMessage option" where
  "createSpinningAnimation names winnerIndex ch =
     (if length names = 0 then Inr None
      else (case addFrames names winnerIndex (finalRotationRad (length names) winnerIndex)
                   [0..<totalFrames] of
              Inl e \<Rightarrow> Inl e
            | Inr fs \<Rightarrow> Inr (Some \<lparr>channel = ch, frames = fs\<rparr>)))"

definition createCssSpinAnimation ::
  "jsval list \<Rightarrow> 'w \<Rightarrow> 'c \<Rightarrow> error + 'c spinMessage option" where
  "createCssSpinAnimation names winnerIndex ch = createSpinningAnimation names 0 ch"

section \<open>The random source, the store and the cancel button\<close>

text \<open>
  \<open>Math.random()\<close> returns a number that is at least 0 and less than 1; the type below
  holds exactly these numbers.  The product \<open>Math.random() * n\<close> is the exact product
  (floating-point rounding is not modelled).
\<close>

typedef random_number = "{r::real. 0 \<le> r \<and> r < 1}"
  morphisms number_of Abs_random_number
  by (rule exI[of _ 0]) simp

text \<open>
  Arrays that are copied and mutated live in a store: \<open>heap\<close> maps an array reference to
  the array's elements and \<open>nxt\<close> is the next fresh reference.  \<open>randoms\<close> is the sequence
  of numbers that the coming calls of \<open>Math.random()\<close> return, and \<open>presses\<close> the sequence
  of answers of the coming calls of \<open>waitForCancelButton\<close> on a sent message (\<open>True\<close>:
  the initiator pressed Cancel before the timeout).
\<close>

record state =
  heap :: "nat \<Rightarrow> jsval list"
  nxt :: nat
  randoms :: "nat \<Rightarrow> random_number"
  presses :: "nat \<Rightarrow> bool"

definition Math_random :: "state \<Rightarrow> real \<times> state" where
  "Math_random s = (number_of (randoms s 0), s\<lparr>randoms := \<lambda>k. randoms s (Suc k)\<rparr>)"

definition Math_floor :: "real \<Rightarrow> int" where
  "Math_floor x = \<lfloor>x\<rfloor>"

definition waitForCancelButton :: "'m option \<Rightarrow> state \<Rightarrow> bool \<times> state" where
  "waitForCancelButton spinMessage s =
     (case spinMessage of
        None \<Rightarrow> (False, s)
      | Some m \<Rightarrow> (presses s 0, s\<lparr>presses := \<lambda>k. presses s (Suc k)\<rparr>))"

subsection \<open>JavaScript arrays\<close>

text \<open>\<open>xs[i]\<close>: \<open>None\<close> is \<open>undefined\<close>, the value of a read out of range.\<close>

definition js_get :: "'a list \<Rightarrow> int \<Rightarrow> 'a option" where
  "js_get xs i = (if 0 \<le> i \<and> i < int (length xs) then Some (xs ! nat i) else None)"

text \<open>
  An index argument is an integer or \<open>null\<close> (\<open>None\<close>), the two kinds of value that
  \<open>spinWheel\<close> returns.  \<open>xs[null]\<close> is \<open>undefined\<close>, and as the start of a \<open>splice\<close>
  \<open>null\<close> converts to 0.
\<close>

definition js_read :: "jsval list \<Rightarrow> int option \<Rightarrow> jsval" where
  "js_read xs idx =
     (case idx of
        None \<Rightarrow> Undefined
      | Some i \<Rightarrow> (case js_get xs i of None \<Rightarrow> Undefined | Some v \<Rightarrow> v))"

definition ToIntegerOrInfinity :: "int option \<Rightarrow> int" where
  "ToIntegerOrInfinity idx = (case idx of None \<Rightarrow> 0 | Some i \<Rightarrow> i)"

text \<open>
  The array after \<open>xs.splice(start, deleteCount)\<close>: a negative \<open>start\<close> counts from the
  end, a \<open>start\<close> beyond the end removes nothing.
\<close>

definition splice_js :: "int \<Rightarrow> nat \<Rightarrow> 'a list \<Rightarrow> 'a list" where
  "splice_js start deleteCount xs =
     (let len = int (length xs);
          actualStart = (if start < 0 then max (len + start) 0 else min start len);
          actualDeleteCount = min (int deleteCount) (len - actualStart)
      in take (nat actualStart) xs @ drop (nat (actualStart + actualDeleteCount)) xs)"

definition alloc :: "jsval list \<Rightarrow> state \<Rightarrow> nat \<times> state" where
  "alloc xs s = (nxt s, s\<lparr>heap := (heap s)(nxt s := xs), nxt := Suc (nxt s)\<rparr>)"

text \<open>\<open>arr.slice()\<close>: a new array with the elements of \<open>arr\<close>.\<close>

definition slice :: "nat \<Rightarrow> state \<Rightarrow> nat \<times> state" where
  "slice arr s = alloc (heap s arr) s"

text \<open>\<open>arr.splice(start, deleteCount)\<close>, in place.\<close>

definition splice_at :: "nat \<Rightarrow> int option \<Rightarrow> nat \<Rightarrow> state \<Rightarrow> state" where
  "splice_at arr start deleteCount s =
     s\<lparr>heap := (heap s)(arr := splice_js (ToIntegerOrInfinity start) deleteCount (heap s arr))\<rparr>"

text \<open>
  \<open>[a[i], a[j]] = [a[j], a[i]]\<close>, in place: both reads come first, then \<open>a[i]\<close> is
  written, then \<open>a[j]\<close>.  In \<open>shuffleArray\<close> both indices are in range
  (lemmas \<open>shuffle_index_le\<close> and \<open>shuffle_loop_length\<close>).
\<close>

definition swap :: "nat \<Rightarrow> nat \<Rightarrow> nat \<Rightarrow> state \<Rightarrow> state" where
  "swap a i j s =
     s\<lparr>heap := (heap s)(a := (let xs = heap s a in xs[i := xs ! j, j := xs ! i]))\<rparr>"

section \<open>Random draw and winner ordering\<close>

text \<open>
  \<open>spinWheel\<close> reads only the length of \<open>users\<close>; \<open>None\<close> is the \<open>null\<close> it returns for
  an empty array (the \<open>!users\<close> test guards against a value that is no array, which the
  type excludes).
\<close>

definition spinWheel :: "'a list \<Rightarrow> state \<Rightarrow> int option \<times> state" where
  "spinWheel users s =
     (if length users = 0 then (None, s)
      else (let (r, s1) = Math_random s
            in (Some (Math_floor (r * real (length users))), s1)))"

text \<open>
  How a call of \<open>spinWheel\<close> ends, in the form of the functions that can throw:
  \<open>spinWheel\<close> has no \<open>throw\<close> and calls only \<open>Math.random\<close> and \<open>Math.floor\<close>, so
  every call ends by a \<open>return\<close>.
\<close>

definition spinWheel_call :: "'a list \<Rightarrow> state \<Rightarrow> (error + int option) \<times> state" where
  "spinWheel_call users s = (Inr (fst (spinWheel users s)), snd (spinWheel users s))"

text \<open>
  The loop of \<open>shuffleArray\<close>, \<open>for (let i = a.length - 1; i > 0; i--)\<close>: the counter
  argument is \<open>i\<close>, and the loop is over once it is 0.
\<close>

fun shuffle_loop :: "nat \<Rightarrow> nat \<Rightarrow> state \<Rightarrow> state" where
  "shuffle_loop a 0 s = s"
| "shuffle_loop a (Suc k) s =
     (let i = Suc k;
          (r, s1) = Math_random s;
          j = nat (Math_floor (r * real (i + 1)));
          s2 = swap a i j s1
      in shuffle_loop a k s2)"

definition shuffleArray :: "nat \<Rightarrow> state \<Rightarrow> nat \<times> state" where
  "shuffleArray arr s =
     (let (a, s1) = slice arr s;
          s2 = shuffle_loop a (length (heap s1 a) - 1) s1
      in (a, s2))"

definition orderedForWinner :: "nat \<Rightarrow> int option \<Rightarrow> state \<Rightarrow> nat \<times> state" where
  "orderedForWinner names winnerIndex s =
     (if length (heap s names) = 0 then alloc [] s
      else (let winner = js_read (heap s names) winnerIndex;
                (others, s1) = slice names s;
                s2 = splice_at others winnerIndex 1 s1;
                (shuffled, s3) = shuffleArray others s2
            in alloc (winner # heap s3 shuffled) s3))"

section \<open>The elimination loop of \<open>!spin\<close>\<close>

record member =
  member_id :: nat
  displayName :: string

text \<open>
  What one completed pass of the loop did: the index drawn, the member at that index
  (the one announced as removed from the wheel), and \<open>remainingUsers\<close> after the removal.
\<close>

record spin_round =
  roundNum :: nat
  winnerIndex :: int
  winner :: member
  remaining :: "member list"

text \<open>
  How the loop is left: its condition fails (\<open>Finished\<close>), the \<open>break\<close> on a \<open>null\<close>
  draw (\<open>Broke\<close>), the \<open>return\<close> after a cancelled spin (\<open>Cancelled\<close>), or an error
  (\<open>Threw\<close>): one thrown while the animation is drawn, or the TypeError of
  \<open>winner.displayName\<close> on an \<open>undefined\<close> winner.
\<close>

datatype loop_exit = Finished | Broke | Cancelled | Threw

text \<open>
  \<open>remainingUsers\<close> is a local array that only the loop itself changes (\<open>map\<close> builds a
  new array of names and \<open>spinWheel\<close> reads the length), so it is passed as a value; the
  array of names goes through the store, where \<open>orderedForWinner\<close> copies it.  The result
  is \<open>None\<close> if the loop never ends.
\<close>

partial_function (option) spin_loop ::
  "'c \<Rightarrow> member list \<Rightarrow> nat \<Rightarrow> spin_round list \<Rightarrow> state
     \<Rightarrow> (loop_exit \<times> member list \<times> spin_round list \<times> state) option" where
  "spin_loop ch remainingUsers rn rounds s =
     (if length remainingUsers > 1 then
        (let (names, s1) = alloc (map (\<lambda>user. Str (displayName user)) remainingUsers) s;
             (drawn, s2) = spinWheel remainingUsers s1
         in case drawn of
              None \<Rightarrow> Some (Broke, remainingUsers, rounds, s2)
            | Some wi \<Rightarrow>
                (let w = js_get remainingUsers wi;
                     (ordered, s3) = orderedForWinner names (Some wi) s2
                 in case createCssSpinAnimation (heap s3 ordered) (0::int) ch of
                      Inl e \<Rightarrow> Some (Threw, remainingUsers, rounds, s3)
                    | Inr spinMsg \<Rightarrow>
                        (let (cancelled, s4) =
                               (if spinMsg \<noteq> None then waitForCancelButton spinMsg s3
                                else (False, s3))
                         in if cancelled then Some (Cancelled, remainingUsers, rounds, s4)
                            else case w of
                                   None \<Rightarrow> Some (Threw, remainingUsers, rounds, s4)
                                 | Some user \<Rightarrow>
                                     (let remainingUsers' = splice_js wi 1 remainingUsers
                                      in spin_loop ch remainingUsers' (rn + 1)
                                           (rounds @ [\<lparr>roundNum = rn, winnerIndex = wi,
                                                       winner = user,
                                                       remaining = remainingUsers'\<rparr>]) s4))))
      else Some (Finished, remainingUsers, rounds, s))"

text \<open>
  Step 2 of the \<open>!spin\<close> command, from the list of members with the role "On the wheel"
  to the announcement made: too few members, a cancelled spin, the final winner, or
  "No final winner determined".
\<close>

datatype outcome = NeedAtLeast2 nat | SpinCancelled | FinalWinner member | NoFinalWinner | TypeError

definition spin_step2 ::
  "'c \<Rightarrow> member list \<Rightarrow> state \<Rightarrow> (outcome \<times> spin_round list \<times> state) option" where
  "spin_step2 ch onWheelUsers s =
     (if length onWheelUsers < 2 then Some (NeedAtLeast2 (length onWheelUsers), [], s)
      else (case spin_loop ch onWheelUsers 1 [] s of
              None \<Rightarrow> None
            | Some (ex, remainingUsers, rounds, s') \<Rightarrow>
                (case ex of
                   Cancelled \<Rightarrow> Some (SpinCancelled, rounds, s')
                 | Threw \<Rightarrow> Some (TypeError, rounds, s')
                 | _ \<Rightarrow>
                     if length remainingUsers = 1
                     then Some (FinalWinner (remainingUsers ! 0), rounds, s')
                     else Some (NoFinalWinner, rounds, s'))))"

section \<open>Properties and example data\<close>

text \<open>Two angles are congruent modulo a full turn.\<close>

definition congruent_mod_turn :: "real \<Rightarrow> real \<Rightarrow> bool" where
  "congruent_mod_turn a b = (\<exists>k::int. a - b = of_int k * (2 * pi))"

text \<open>
  A list of rounds that starts from \<open>pool\<close>: each round draws an index of its pool,
  names the member at that index, and leaves the pool without that one position, the
  other members in their order; the next round starts from what is left.
\<close>

fun removes_drawn :: "member list \<Rightarrow> spin_round list \<Rightarrow> bool" where
  "removes_drawn pool [] = True"
| "removes_drawn pool (r # rs) =
     (0 \<le> winnerIndex r \<and> winnerIndex r < int (length pool) \<and>
      winner r = pool ! nat (winnerIndex r) \<and>
      remaining r = take (nat (winnerIndex r)) pool @ drop (Suc (nat (winnerIndex r))) pool \<and>
      length (remaining r) + 1 = length pool \<and>
      removes_drawn (remaining r) rs)"

text \<open>The result of the loop without the final store.\<close>

definition loop_report ::
  "(loop_exit \<times> member list \<times> spin_round list \<times> state) option
     \<Rightarrow> (loop_exit \<times> member list \<times> spin_round list) option" where
  "loop_report res =
     (case res of None \<Rightarrow> None | Some (ex, pool, rounds, s) \<Rightarrow> Some (ex, pool, rounds))"

definition one_half :: random_number where
  "one_half = Abs_random_number (1 / 2)"

text \<open>
  A store with one array of four names, a random source that always returns 0.5,
  and nobody pressing Cancel; and the same with the initiator pressing Cancel at once.
\<close>

definition example_state :: state where
  "example_state =
     \<lparr>heap = (\<lambda>r. if r = 0 then [Str ''Alice'', Str ''Bob'', Str ''Charlie'', Str ''Diana'']
                   else []),
      nxt = 1,
      randoms = (\<lambda>k. one_half),
      presses = (\<lambda>k. False)\<rparr>"

definition cancelling_state :: state where
  "cancelling_state = example_state\<lparr>presses := (\<lambda>k. True)\<rparr>"

definition example_pool :: "member list" where
  "example_pool =
     [\<lparr>member_id = 1, displayName = ''Alice''\<rparr>, \<lparr>member_id = 2, displayName = ''Bob''\<rparr>]"

section \<open>Lemmas on the animation\<close>

lemma easeOutCubic_mono: "s \<le> t \<Longrightarrow> easeOutCubic s \<le> easeOutCubic t"
proof -
  assume "s \<le> t"
  then have "1 - t \<le> 1 - s" by simp
  then have "(1 - t) ^ 3 \<le> (1 - s) ^ 3"
    by (rule power_mono_odd[rotated]) simp
  then show ?thesis by (simp add: easeOutCubic_def)
qed

lemma progress_mono: "i \<le> j \<Longrightarrow> progress i \<le> progress j"
  by (simp add: progress_def totalFrames_def divide_right_mono)

lemma createWheelImage_defined:
  assumes "names \<noteq> []" and "Undefined \<notin> set names"
  shows "createWheelImage names idx rotation =
           Inr \<lparr>labels = names,
                highlighted =
                  (case idx of
                     None \<Rightarrow> None
                   | Some w \<Rightarrow> if 0 \<le> w \<and> w < int (length names) then Some w else None),
                turned = rotation,
                pointer = Some POINTER_ANGLE\<rparr>"
  using assms by (simp add: createWheelImage_def)

text \<open>The frame that the loop body adds for a list of names that are all defined.\<close>

lemma drawFrame_defined:
  assumes "names \<noteq> []" and "Undefined \<notin> set names"
  shows "drawFrame names w final fr =
           Inr \<lparr>picture = \<lparr>labels = names,
                          highlighted =
                            (if fr \<ge> totalFrames - 5 \<and> 0 \<le> w \<and> w < int (length names)
                             then Some w else None),
                          turned = frameAngle final fr,
                          pointer = Some POINTER_ANGLE\<rparr>,
                delay = frameDelay fr\<rparr>"
  using assms by (simp add: drawFrame_def createWheelImage_defined Let_def)

lemma addFrames_defined:
  assumes "names \<noteq> []" and "Undefined \<notin> set names"
  shows "addFrames names w final frs =
           Inr (map (\<lambda>fr. \<lparr>picture = \<lparr>labels = names,
                                      highlighted =
                                        (if fr \<ge> totalFrames - 5 \<and> 0 \<le> w \<and> w < int (length names)
                                         then Some w else None),
                                      turned = frameAngle final fr,
                                      pointer = Some POINTER_ANGLE\<rparr>,
                            delay = frameDelay fr\<rparr>) frs)"
  by (induction frs) (simp_all add: drawFrame_defined[OF assms])

lemma drawFrame_undefined:
  assumes "names \<noteq> []" and "Undefined \<in> set names"
  shows "drawFrame names w final fr = Inl Thrown_TypeError"
  using assms by (simp add: drawFrame_def createWheelImage_def Let_def)

lemma createSpinningAnimation_undefined:
  assumes "names \<noteq> []" and "Undefined \<in> set names"
  shows "createSpinningAnimation names w ch = Inl Thrown_TypeError"
proof -
  have "[0..<totalFrames] = 0 # [1..<totalFrames]"
    by (simp add: totalFrames_def upt_rec)
  then show ?thesis
    using assms by (simp add: createSpinningAnimation_def drawFrame_undefined)
qed

lemma createSpinningAnimation_defined:
  assumes "names \<noteq> []" and "Undefined \<notin> set names"
  shows "createSpinningAnimation names w ch =
           Inr (Some \<lparr>channel = ch,
                      frames = map (\<lambda>fr. \<lparr>picture = \<lparr>labels = names,
                                      highlighted =
                                        (if fr \<ge> totalFrames - 5 \<and> 0 \<le> w \<and> w < int (length names)
                                         then Some w else None),
                                      turned = frameAngle (finalRotationRad (length names) w) fr,
                                      pointer = Some POINTER_ANGLE\<rparr>,
                            delay = frameDelay fr\<rparr>) [0..<totalFrames]\<rparr>)"
  using assms by (simp add: createSpinningAnimation_def addFrames_defined)

lemma highlight_frames:
  "map (\<lambda>fr. if fr \<ge> totalFrames - 5 then Some w else None) [0..<totalFrames]
     = replicate 55 None @ replicate 5 (Some w)"
  by (simp add: totalFrames_def upt_rec numeral_eq_Suc)

lemma frameAngle_last: "frameAngle final (totalFrames - 1) = final"
  by (simp add: frameAngle_def easeOutCubic_def progress_def totalFrames_def)

lemma last_frames: "last [0..<totalFrames] = totalFrames - 1"
  by (simp add: totalFrames_def)

lemma rotation_lands:
  "congruent_mod_turn (winnerMidAngle n w + finalRotationRad n w) POINTER_ANGLE"
proof -
  have "winnerMidAngle n w + finalRotationRad n w - POINTER_ANGLE
          = of_int (int FIXED_ROTATIONS) * (2 * pi)"
    by (simp add: finalRotationRad_def rotationFor_def)
  then show ?thesis
    unfolding congruent_mod_turn_def by (rule exI)
qed

section \<open>Lemmas on the random draw and the shuffle\<close>

lemma number_of_range: "0 \<le> number_of r \<and> number_of r < 1"
  using number_of[of r] by simp

lemma draw_range:
  assumes "0 < n"
  shows "0 \<le> Math_floor (number_of r * real n) \<and> Math_floor (number_of r * real n) < int n"
proof -
  have r: "0 \<le> number_of r" "number_of r < 1"
    using number_of_range by simp_all
  have "0 \<le> number_of r * real n"
    using r by simp
  moreover have "number_of r * real n < real n"
    using r assms by simp
  ultimately show ?thesis
    unfolding Math_floor_def by (simp add: floor_less_iff)
qed

lemma shuffle_index_le: "nat (Math_floor (number_of r * real (i + 1))) \<le> i"
proof -
  have "Math_floor (number_of r * real (i + 1)) < int (i + 1)"
    using draw_range[of "i + 1" r] by fastforce
  then show ?thesis by linarith
qed

lemma spinWheel_value:
  "users \<noteq> [] \<Longrightarrow>
     spinWheel users s = (Some (Math_floor (number_of (randoms s 0) * real (length users))),
                          s\<lparr>randoms := \<lambda>k. randoms s (Suc k)\<rparr>)"
  by (simp add: spinWheel_def Math_random_def)

lemma spinWheel_draw:
  assumes "users \<noteq> []"
  shows "\<exists>i. spinWheel users s = (Some i, s\<lparr>randoms := \<lambda>k. randoms s (Suc k)\<rparr>)
            \<and> 0 \<le> i \<and> i < int (length users)"
  using assms draw_range[of "length users" "randoms s 0"]
  by (simp add: spinWheel_value)

lemma mset_swap_le:
  "i < length xs \<Longrightarrow> j \<le> i \<Longrightarrow> mset (xs[i := xs ! j, j := xs ! i]) = mset xs"
  by (simp add: mset_swap)

lemma shuffle_loop_other: "b \<noteq> a \<Longrightarrow> heap (shuffle_loop a k s) b = heap s b"
  by (induction k arbitrary: s) (simp_all add: Math_random_def swap_def Let_def)

lemma shuffle_loop_nxt: "nxt (shuffle_loop a k s) = nxt s"
  by (induction k arbitrary: s) (simp_all add: Math_random_def swap_def Let_def)

lemma shuffle_loop_presses: "presses (shuffle_loop a k s) = presses s"
  by (induction k arbitrary: s) (simp_all add: Math_random_def swap_def Let_def)

lemma shuffle_loop_mset:
  "k < length (heap s a) \<Longrightarrow> mset (heap (shuffle_loop a k s) a) = mset (heap s a)"
proof (induction k arbitrary: s)
  case 0
  then show ?case by simp
next
  case (Suc k)
  let ?j = "nat (Math_floor (number_of (randoms s 0) * real (Suc k + 1)))"
  let ?s2 = "swap a (Suc k) ?j (s\<lparr>randoms := \<lambda>k. randoms s (Suc k)\<rparr>)"
  have j: "?j \<le> Suc k" by (rule shuffle_index_le)
  have m: "mset (heap ?s2 a) = mset (heap s a)"
    using Suc.prems j by (simp add: swap_def Let_def mset_swap_le del: of_nat_Suc)
  then have "length (heap ?s2 a) = length (heap s a)"
    by (metis size_mset)
  with Suc.prems have "k < length (heap ?s2 a)" by simp
  from Suc.IH[OF this] m show ?case
    by (simp add: Math_random_def Let_def del: of_nat_Suc)
qed

lemma shuffle_loop_length:
  "k < length (heap s a) \<Longrightarrow> length (heap (shuffle_loop a k s) a) = length (heap s a)"
  by (metis shuffle_loop_mset size_mset)

lemma shuffle_loop_mset_upto:
  "k \<le> length (heap s a) - 1 \<Longrightarrow> mset (heap (shuffle_loop a k s) a) = mset (heap s a)"
  by (cases k) (simp_all add: shuffle_loop_mset del: shuffle_loop.simps(2))

lemma shuffleArray_props:
  "fst (shuffleArray arr s) = nxt s \<and>
   mset (heap (snd (shuffleArray arr s)) (nxt s)) = mset (heap s arr) \<and>
   (\<forall>r. r \<noteq> nxt s \<longrightarrow> heap (snd (shuffleArray arr s)) r = heap s r) \<and>
   nxt (snd (shuffleArray arr s)) = Suc (nxt s) \<and>
   presses (snd (shuffleArray arr s)) = presses s"
  by (simp add: shuffleArray_def slice_def alloc_def Let_def shuffle_loop_mset_upto
      shuffle_loop_other shuffle_loop_nxt shuffle_loop_presses)

lemma splice_one:
  "0 \<le> i \<Longrightarrow> i < int (length xs) \<Longrightarrow> splice_js i 1 xs = take (nat i) xs @ drop (Suc (nat i)) xs"
  by (simp add: splice_js_def Let_def min_def nat_add_distrib)

lemma mset_take_drop:
  "i < length xs \<Longrightarrow> mset (take i xs @ drop (Suc i) xs) + {#xs ! i#} = mset xs"
proof -
  assume "i < length xs"
  then have "xs = take i xs @ xs ! i # drop (Suc i) xs"
    by (rule id_take_nth_drop)
  then have "mset xs = mset (take i xs @ xs ! i # drop (Suc i) xs)"
    by simp
  then show ?thesis by simp
qed

lemma orderedForWinner_props:
  assumes "heap s names \<noteq> []"
  shows "\<exists>ys. heap (snd (orderedForWinner names wi s)) (fst (orderedForWinner names wi s))
               = js_read (heap s names) wi # ys \<and>
              mset ys = mset (splice_js (ToIntegerOrInfinity wi) 1 (heap s names))"
proof -
  let ?s2 = "splice_at (nxt s) wi 1 (snd (slice names s))"
  let ?s3 = "snd (shuffleArray (nxt s) ?s2)"
  have n2: "nxt ?s2 = Suc (nxt s)"
    by (simp add: splice_at_def slice_def alloc_def)
  have h2: "heap ?s2 (nxt s) = splice_js (ToIntegerOrInfinity wi) 1 (heap s names)"
    by (simp add: splice_at_def slice_def alloc_def)
  have "mset (heap ?s3 (nxt ?s2)) = mset (heap ?s2 (nxt s))"
    using shuffleArray_props[of "nxt s" ?s2] by blast
  with h2 have m: "mset (heap ?s3 (nxt ?s2))
                     = mset (splice_js (ToIntegerOrInfinity wi) 1 (heap s names))"
    by simp
  have f: "fst (shuffleArray (nxt s) ?s2) = nxt ?s2"
    using shuffleArray_props[of "nxt s" ?s2] by blast
  have "orderedForWinner names wi s
          = alloc (js_read (heap s names) wi # heap ?s3 (nxt ?s2)) ?s3"
    using assms f
    by (simp add: orderedForWinner_def Let_def slice_def alloc_def split_beta)
  then show ?thesis using m by (simp add: alloc_def)
qed

text \<open>With a winner index in range, the names of the result are names of the input.\<close>

lemma orderedForWinner_defined:
  assumes "Undefined \<notin> set (heap s names)" and "0 \<le> wi" and "wi < int (length (heap s names))"
  shows "heap (snd (orderedForWinner names (Some wi) s))
              (fst (orderedForWinner names (Some wi) s)) \<noteq> [] \<and>
         Undefined \<notin> set (heap (snd (orderedForWinner names (Some wi) s))
                                (fst (orderedForWinner names (Some wi) s)))"
proof -
  let ?xs = "heap s names"
  from assms have ne: "?xs \<noteq> []" by auto
  from orderedForWinner_props[OF ne, of "Some wi"] obtain ys where
    out: "heap (snd (orderedForWinner names (Some wi) s))
            (fst (orderedForWinner names (Some wi) s))
            = js_read ?xs (Some wi) # ys"
    and ys: "mset ys = mset (splice_js wi 1 ?xs)"
    by (auto simp: ToIntegerOrInfinity_def)
  have w: "js_read ?xs (Some wi) = ?xs ! nat wi"
    using assms by (simp add: js_read_def js_get_def)
  have i: "nat wi < length ?xs" using assms by simp
  have sp: "splice_js wi 1 ?xs = take (nat wi) ?xs @ drop (Suc (nat wi)) ?xs"
    using assms(2,3) by (rule splice_one)
  have "set ys = set (splice_js wi 1 ?xs)"
    using ys by (rule mset_eq_setD)
  also have "\<dots> \<subseteq> set ?xs"
    unfolding sp using set_take_subset[of "nat wi" ?xs] set_drop_subset[of "Suc (nat wi)" ?xs]
    by auto
  finally have a: "Undefined \<notin> set ys"
    using assms(1) by auto
  have b: "?xs ! nat wi \<noteq> Undefined"
    using assms(1) i by (metis nth_mem)
  show ?thesis
    unfolding out w using a b by auto
qed

lemma orderedForWinner_frame_general:
  "r < nxt s \<Longrightarrow> heap (snd (orderedForWinner names wi s)) r = heap s r"
proof -
  assume r: "r < nxt s"
  let ?s2 = "splice_at (nxt s) wi 1 (snd (slice names s))"
  let ?s3 = "snd (shuffleArray (nxt s) ?s2)"
  have n2: "nxt ?s2 = Suc (nxt s)"
    by (simp add: splice_at_def slice_def alloc_def)
  have h2: "heap ?s2 r = heap s r"
    using r by (simp add: splice_at_def slice_def alloc_def)
  have h3: "heap ?s3 r = heap ?s2 r"
    using shuffleArray_props[of "nxt s" ?s2] r n2 by simp
  have n3: "nxt ?s3 = Suc (Suc (nxt s))"
    using shuffleArray_props[of "nxt s" ?s2] n2 by simp
  show ?thesis
    using r h2 h3 n3
    by (simp add: orderedForWinner_def Let_def alloc_def split_beta slice_def)
qed

lemma orderedForWinner_presses: "presses (snd (orderedForWinner names wi s)) = presses s"
proof -
  let ?s2 = "splice_at (nxt s) wi 1 (snd (slice names s))"
  have "presses (snd (shuffleArray (nxt s) ?s2)) = presses ?s2"
    using shuffleArray_props[of "nxt s" ?s2] by blast
  then show ?thesis
    by (simp add: orderedForWinner_def Let_def alloc_def split_beta slice_def splice_at_def)
qed

section \<open>Lemmas on the elimination loop\<close>

lemma waitForCancelButton_quiet:
  assumes "\<forall>k. \<not> presses s k"
  shows "\<not> fst (waitForCancelButton m s) \<and> (\<forall>k. \<not> presses (snd (waitForCancelButton m s)) k)"
  using assms by (cases m) (simp_all add: waitForCancelButton_def)

text \<open>One pass of the loop when nobody presses Cancel, with the index that is drawn.\<close>

lemma spin_loop_step:
  assumes quiet: "\<forall>k. \<not> presses s k" and len: "1 < length pool"
    and wi: "wi = Math_floor (number_of (randoms s 0) * real (length pool))"
  shows "\<exists>s4. (\<forall>k. \<not> presses s4 k) \<and>
           spin_loop ch pool rn acc s =
             spin_loop ch (splice_js wi 1 pool) (rn + 1)
               (acc @ [\<lparr>roundNum = rn, winnerIndex = wi, winner = pool ! nat wi,
                        remaining = splice_js wi 1 pool\<rparr>]) s4"
proof -
  let ?names = "fst (alloc (map (\<lambda>user. Str (displayName user)) pool) s)"
  let ?s1 = "snd (alloc (map (\<lambda>user. Str (displayName user)) pool) s)"
  from len have ne: "pool \<noteq> []" by auto
  have r1: "randoms ?s1 = randoms s"
    by (simp add: alloc_def)
  let ?s2 = "?s1\<lparr>randoms := \<lambda>k. randoms ?s1 (Suc k)\<rparr>"
  have draw: "spinWheel pool ?s1 = (Some wi, ?s2)"
    using spinWheel_value[OF ne, of ?s1] r1 wi by simp
  have rng: "0 \<le> wi" "wi < int (length pool)"
    using draw_range[of "length pool" "randoms s 0"] ne wi by simp_all
  let ?s3 = "snd (orderedForWinner ?names (Some wi) ?s2)"
  let ?ordered = "fst (orderedForWinner ?names (Some wi) ?s2)"
  have names: "heap ?s2 ?names = map (\<lambda>user. Str (displayName user)) pool"
    by (simp add: alloc_def)
  have "Undefined \<notin> set (heap ?s2 ?names)" and "wi < int (length (heap ?s2 ?names))"
    unfolding names using rng by auto
  from orderedForWinner_defined[OF this(1) rng(1) this(2)]
  have "heap ?s3 ?ordered \<noteq> []" and "Undefined \<notin> set (heap ?s3 ?ordered)"
    by simp_all
  then obtain m where msg: "createCssSpinAnimation (heap ?s3 ?ordered) (0::int) ch = Inr (Some m)"
    by (simp add: createCssSpinAnimation_def createSpinningAnimation_defined)
  let ?s4 = "snd (waitForCancelButton (Some m) ?s3)"
  have "presses ?s3 = presses s"
    by (simp add: orderedForWinner_presses alloc_def)
  with quiet have q3: "\<forall>k. \<not> presses ?s3 k" by simp
  from waitForCancelButton_quiet[OF q3, of "Some m"]
  have nc: "\<not> fst (waitForCancelButton (Some m) ?s3)" and q4: "\<forall>k. \<not> presses ?s4 k"
    by simp_all
  have g: "js_get pool wi = Some (pool ! nat wi)"
    using rng by (simp add: js_get_def)
  have "spin_loop ch pool rn acc s =
          spin_loop ch (splice_js wi 1 pool) (rn + 1)
            (acc @ [\<lparr>roundNum = rn, winnerIndex = wi, winner = pool ! nat wi,
                     remaining = splice_js wi 1 pool\<rparr>]) ?s4"
    using len draw msg nc g
    by (subst spin_loop.simps) (simp add: Let_def split_beta)
  with q4 show ?thesis by blast
qed

lemma spin_loop_runs:
  assumes "\<forall>k. \<not> presses s k" and "length pool = Suc n"
  shows "\<exists>rs survivor s'.
           spin_loop ch pool rn acc s = Some (Finished, [survivor], acc @ rs, s') \<and>
           length rs = n \<and> removes_drawn pool rs \<and>
           mset (map winner rs) + {#survivor#} = mset pool \<and>
           map roundNum rs = [rn..<rn + n]"
  using assms
proof (induction n arbitrary: pool rn acc s)
  case 0
  then obtain x where "pool = [x]"
    by (cases pool) simp_all
  then have "spin_loop ch pool rn acc s = Some (Finished, [x], acc @ [], s)"
    by (subst spin_loop.simps) simp
  then show ?case
    using \<open>pool = [x]\<close> by (intro exI[of _ "[]"] exI[of _ x] exI[of _ s]) simp
next
  case (Suc n)
  from Suc.prems have len: "1 < length pool" by simp
  define wi where "wi = Math_floor (number_of (randoms s 0) * real (length pool))"
  from len have ne: "pool \<noteq> []" by auto
  have wi: "0 \<le> wi" "wi < int (length pool)"
    using draw_range[of "length pool" "randoms s 0"] ne by (simp_all add: wi_def)
  from spin_loop_step[OF Suc.prems(1) len wi_def, of ch rn acc] obtain s4 where
    q4: "\<forall>k. \<not> presses s4 k"
    and step: "spin_loop ch pool rn acc s =
             spin_loop ch (splice_js wi 1 pool) (rn + 1)
               (acc @ [\<lparr>roundNum = rn, winnerIndex = wi, winner = pool ! nat wi,
                        remaining = splice_js wi 1 pool\<rparr>]) s4"
    by blast
  define pool' where "pool' = splice_js wi 1 pool"
  define r where
    "r = \<lparr>roundNum = rn, winnerIndex = wi, winner = pool ! nat wi, remaining = pool'\<rparr>"
  have sp: "pool' = take (nat wi) pool @ drop (Suc (nat wi)) pool"
    unfolding pool'_def using wi by (rule splice_one)
  have i: "nat wi < length pool" using wi by simp
  have len': "length pool' = Suc n"
    using Suc.prems(2) i by (simp add: sp)
  have ms: "mset pool' + {#pool ! nat wi#} = mset pool"
    using mset_take_drop[OF i] by (simp add: sp)
  from Suc.IH[OF q4 len', of "rn + 1" "acc @ [r]"] obtain rs survivor s' where
    run: "spin_loop ch pool' (rn + 1) (acc @ [r]) s4
            = Some (Finished, [survivor], (acc @ [r]) @ rs, s')"
    and n: "length rs = n" and rd: "removes_drawn pool' rs"
    and m: "mset (map winner rs) + {#survivor#} = mset pool'"
    and nums: "map roundNum rs = [rn + 1..<rn + 1 + n]"
    by blast
  have a: "spin_loop ch pool rn acc s = Some (Finished, [survivor], acc @ (r # rs), s')"
    using step run by (simp add: pool'_def r_def)
  have b: "removes_drawn pool (r # rs)"
    using wi rd len' Suc.prems(2) sp by (simp add: r_def)
  have "mset (map winner (r # rs)) + {#survivor#}
          = (mset (map winner rs) + {#survivor#}) + {#pool ! nat wi#}"
    by (simp add: r_def)
  also have "\<dots> = mset pool' + {#pool ! nat wi#}"
    by (simp only: m)
  finally have c: "mset (map winner (r # rs)) + {#survivor#} = mset pool"
    by (simp only: ms)
  have d: "map roundNum (r # rs) = [rn..<rn + Suc n]"
    using nums by (simp add: upt_rec[of rn] r_def)
  have e: "length (r # rs) = Suc n"
    using n by simp
  show ?case
    using a b c d e by blast
qed

lemma spin_loop_cancel:
  assumes press: "presses s 0" and len: "1 < length pool"
  shows "loop_report (spin_loop ch pool rn acc s) = Some (Cancelled, pool, acc)"
proof -
  let ?names = "fst (alloc (map (\<lambda>user. Str (displayName user)) pool) s)"
  let ?s1 = "snd (alloc (map (\<lambda>user. Str (displayName user)) pool) s)"
  from len have ne: "pool \<noteq> []" by auto
  from spinWheel_draw[OF ne, of ?s1] obtain wi where
    draw: "spinWheel pool ?s1 = (Some wi, ?s1\<lparr>randoms := \<lambda>k. randoms ?s1 (Suc k)\<rparr>)"
    and rng: "0 \<le> wi" "wi < int (length pool)"
    by blast
  let ?s2 = "?s1\<lparr>randoms := \<lambda>k. randoms ?s1 (Suc k)\<rparr>"
  let ?s3 = "snd (orderedForWinner ?names (Some wi) ?s2)"
  let ?ordered = "fst (orderedForWinner ?names (Some wi) ?s2)"
  have names: "heap ?s2 ?names = map (\<lambda>user. Str (displayName user)) pool"
    by (simp add: alloc_def)
  have "Undefined \<notin> set (heap ?s2 ?names)" and "wi < int (length (heap ?s2 ?names))"
    unfolding names using rng by auto
  from orderedForWinner_defined[OF this(1) rng(1) this(2)]
  have "heap ?s3 ?ordered \<noteq> []" and "Undefined \<notin> set (heap ?s3 ?ordered)"
    by simp_all
  then obtain m where msg: "createCssSpinAnimation (heap ?s3 ?ordered) (0::int) ch = Inr (Some m)"
    by (simp add: createCssSpinAnimation_def createSpinningAnimation_defined)
  have "presses ?s3 = presses s"
    by (simp add: orderedForWinner_presses alloc_def)
  with press have c: "fst (waitForCancelButton (Some m) ?s3)"
    by (simp add: waitForCancelButton_def)
  show ?thesis
    using len draw msg c
    by (subst spin_loop.simps) (simp add: Let_def split_beta loop_report_def)
qed

section \<open>The example data, computed\<close>

lemma number_of_one_half: "number_of one_half = 1 / 2"
  by (simp add: one_half_def Abs_random_number_inverse)

text \<open>
  Winner index 1 on Alice, Bob, Charlie, Diana with every random number 0.5: the others
  are Alice, Charlie, Diana; the shuffle swaps positions 2 and 1 (\<open>j\<close> is the floor of
  1.5) and then position 1 with itself.
\<close>

lemma orderedForWinner_example:
  "heap (snd (orderedForWinner 0 (Some 1) example_state))
        (fst (orderedForWinner 0 (Some 1) example_state))
     = [Str ''Bob'', Str ''Alice'', Str ''Diana'', Str ''Charlie'']"
  by (simp add: orderedForWinner_def example_state_def js_read_def js_get_def slice_def alloc_def
      splice_at_def splice_js_def shuffleArray_def Let_def Math_random_def Math_floor_def
      number_of_one_half swap_def numeral_2_eq_2 ToIntegerOrInfinity_def)

text \<open>A \<open>null\<close> winner index puts \<open>undefined\<close> first and removes the first name.\<close>

lemma orderedForWinner_null_example:
  "heap (snd (orderedForWinner 0 None example_state))
        (fst (orderedForWinner 0 None example_state))
     = [Undefined, Str ''Bob'', Str ''Diana'', Str ''Charlie'']"
  by (simp add: orderedForWinner_def example_state_def js_read_def js_get_def slice_def alloc_def
      splice_at_def splice_js_def shuffleArray_def Let_def Math_random_def Math_floor_def
      number_of_one_half swap_def numeral_2_eq_2 ToIntegerOrInfinity_def)

text \<open>
  The loop on Alice and Bob with every random number 0.5 and no Cancel: round 1 draws
  index 1 and removes Bob, and Alice is left.
\<close>

lemma spin_loop_example:
  "loop_report (spin_loop () example_pool 1 [] example_state)
     = Some (Finished, [\<lparr>member_id = 1, displayName = ''Alice''\<rparr>],
         [\<lparr>roundNum = 1, winnerIndex = 1, winner = \<lparr>member_id = 2, displayName = ''Bob''\<rparr>,
           remaining = [\<lparr>member_id = 1, displayName = ''Alice''\<rparr>]\<rparr>])"
proof -
  have q: "\<forall>k. \<not> presses example_state k"
    by (simp add: example_state_def)
  have l: "1 < length example_pool"
    by (simp add: example_pool_def)
  have w: "1 = Math_floor (number_of (randoms example_state 0) * real (length example_pool))"
    by (simp add: example_state_def example_pool_def number_of_one_half Math_floor_def)
  have p: "splice_js 1 1 example_pool = [\<lparr>member_id = 1, displayName = ''Alice''\<rparr>]"
    by (simp add: splice_js_def example_pool_def)
  have n: "example_pool ! nat 1 = \<lparr>member_id = 2, displayName = ''Bob''\<rparr>"
    by (simp add: example_pool_def)
  from spin_loop_step[OF q l w, of "()" 1 "[]"] obtain s4 where
    "spin_loop () example_pool 1 [] example_state =
       spin_loop () (splice_js 1 1 example_pool) (1 + 1)
         ([] @ [\<lparr>roundNum = 1, winnerIndex = 1, winner = example_pool ! nat 1,
                  remaining = splice_js 1 1 example_pool\<rparr>]) s4"
    by blast
  then show ?thesis
    unfolding p n by (simp add: spin_loop.simps[of _ "[x]" for x] loop_report_def)
qed

section \<open>The claims\<close>

text \<open>
  Claim C1, as amended.  When nobody presses Cancel, the elimination loop of \<open>!spin\<close>,
  started on a pool of \<open>N \<ge> 2\<close> members, ends by its loop condition after exactly
  \<open>N - 1\<close> rounds with one member left; each round removes the member at the drawn
  index and keeps the others in their order, so that each pool has one member fewer
  than the one before; and the removed members together with the survivor are the
  members of the original pool, each as often as there.
\<close>

theorem spin_loop_eliminates:
  assumes "2 \<le> length pool" and "\<forall>k. \<not> presses s k"
  shows "\<exists>rounds survivor s'.
           spin_loop ch pool rn [] s = Some (Finished, [survivor], rounds, s') \<and>
           length rounds = length pool - 1 \<and>
           removes_drawn pool rounds \<and>
           mset (map winner rounds) + {#survivor#} = mset pool"
proof -
  from assms(1) have "length pool = Suc (length pool - 1)" by simp
  from spin_loop_runs[OF assms(2) this, of ch rn "[]"] show ?thesis
    by auto
qed

theorem spin_loop_eliminates_witness:
  "2 \<le> length example_pool \<and> (\<forall>k. \<not> presses example_state k) \<and>
   (\<exists>rounds survivor s'.
      spin_loop () example_pool 1 [] example_state = Some (Finished, [survivor], rounds, s') \<and>
      length rounds = length example_pool - 1 \<and>
      removes_drawn example_pool rounds \<and>
      mset (map winner rounds) + {#survivor#} = mset example_pool)"
proof -
  have a: "2 \<le> length example_pool"
    by (simp add: example_pool_def)
  have b: "\<forall>k. \<not> presses example_state k"
    by (simp add: example_state_def)
  from spin_loop_eliminates[OF a b, of "()" 1] a b show ?thesis
    by blast
qed

text \<open>
  Claim C1 as stated fails: with a pool of two members and the initiator pressing Cancel
  during the first spin, the loop is left by its \<open>return\<close> with no round completed and
  both members still in the pool.
\<close>

theorem spin_loop_cancelled_counterexample:
  "length example_pool = 2 \<and>
   loop_report (spin_loop () example_pool 1 [] cancelling_state)
     = Some (Cancelled, example_pool, [])"
proof -
  have "presses cancelling_state 0"
    by (simp add: cancelling_state_def)
  moreover have "1 < length example_pool"
    by (simp add: example_pool_def)
  ultimately show ?thesis
    by (simp add: spin_loop_cancel) (simp add: example_pool_def)
qed

text \<open>
  Claim C2.  For every segment count \<open>S \<ge> 1\<close>, every slot in \<open>[0, S)\<close>, every number
  \<open>R\<close> of whole rotations and every pointer angle \<open>P\<close>, the mid-angle of the slot's
  segment, turned by the computed final rotation, is congruent to \<open>P\<close> modulo \<open>2 pi\<close>.
\<close>

theorem rotation_aligns_winner:
  assumes "1 \<le> S" and "0 \<le> slot" and "slot < int S"
  shows "rotationFor R P S slot
           = real R * 2 * pi + (P - ((of_int slot + 0.5) * (2 * pi / real S) - pi / 2)) \<and>
         congruent_mod_turn (winnerMidAngle S slot + rotationFor R P S slot) P"
proof -
  have "winnerMidAngle S slot + rotationFor R P S slot - P = of_int (int R) * (2 * pi)"
    by (simp add: rotationFor_def)
  then have "congruent_mod_turn (winnerMidAngle S slot + rotationFor R P S slot) P"
    unfolding congruent_mod_turn_def by (rule exI)
  then show ?thesis
    by (simp add: rotationFor_def winnerMidAngle_def anglePerSegment_def)
qed

theorem rotation_aligns_winner_witness:
  "(1::nat) \<le> 8 \<and> (0::int) \<le> 0 \<and> (0::int) < int 8 \<and>
   congruent_mod_turn (winnerMidAngle 8 0 + rotationFor 4 0 8 0) 0"
  using rotation_aligns_winner[of 8 0 4 0] by simp

text \<open>
  Claim C3.  For a list of names of size \<open>N \<ge> 1\<close> and a winner index in \<open>[0, N)\<close>,
  \<open>orderedForWinner\<close> returns an array of length \<open>N\<close> whose element 0 is the name at the
  winner index and whose elements are, as a multiset, the names given; positions
  \<open>1..N-1\<close> hold the other \<open>N - 1\<close> names.
\<close>

theorem orderedForWinner_result:
  assumes "0 \<le> wi" and "wi < int (length (heap s names))"
  shows "case orderedForWinner names (Some wi) s of
           (res, s') \<Rightarrow>
             length (heap s' res) = length (heap s names) \<and>
             heap s' res ! 0 = heap s names ! nat wi \<and>
             mset (heap s' res) = mset (heap s names) \<and>
             mset (tl (heap s' res)) = mset (heap s names) - {#heap s names ! nat wi#}"
proof -
  let ?xs = "heap s names"
  from assms have ne: "?xs \<noteq> []" by auto
  from orderedForWinner_props[OF ne, of "Some wi"] obtain ys where
    out: "heap (snd (orderedForWinner names (Some wi) s))
            (fst (orderedForWinner names (Some wi) s))
            = js_read ?xs (Some wi) # ys"
    and ys: "mset ys = mset (splice_js wi 1 ?xs)"
    by (auto simp: ToIntegerOrInfinity_def)
  have w: "js_read ?xs (Some wi) = ?xs ! nat wi"
    using assms by (simp add: js_read_def js_get_def)
  have i: "nat wi < length ?xs" using assms by simp
  have sp: "splice_js wi 1 ?xs = take (nat wi) ?xs @ drop (Suc (nat wi)) ?xs"
    using assms by (rule splice_one)
  have ms: "mset ys + {#?xs ! nat wi#} = mset ?xs"
    using ys sp mset_take_drop[OF i] by simp
  then have len: "length ys + 1 = length ?xs"
    by (metis size_mset size_union size_single)
  have t: "mset ys = mset ?xs - {#?xs ! nat wi#}"
    using ms by (metis add_diff_cancel_right')
  show ?thesis
    using out w ms len t by (simp add: split_beta)
qed

theorem orderedForWinner_result_witness:
  "(0::int) \<le> 1 \<and> (1::int) < int (length (heap example_state 0)) \<and>
   (case orderedForWinner 0 (Some 1) example_state of
      (res, s') \<Rightarrow>
        length (heap s' res) = length (heap example_state 0) \<and>
        heap s' res ! 0 = heap example_state 0 ! nat 1 \<and>
        mset (heap s' res) = mset (heap example_state 0) \<and>
        mset (tl (heap s' res)) = mset (heap example_state 0) - {#heap example_state 0 ! nat 1#})"
proof -
  have a: "(0::int) \<le> 1" by simp
  have b: "(1::int) < int (length (heap example_state 0))"
    by (simp add: example_state_def)
  from orderedForWinner_result[OF a b] a b show ?thesis
    by blast
qed

text \<open>
  Claim C4.  With 60 frames and the easing \<open>1 - (1 - t)^3\<close> of the progress
  \<open>frame / 59\<close>, the angle of frame 0 is 0, the angle of frame 59 is the final
  rotation, and the angle does not decrease from a frame to a later one when the final
  rotation is not negative.
\<close>

theorem frameAngle_curve:
  "totalFrames = 60 \<and>
   frameAngle final fr = (1 - (1 - real fr / real (totalFrames - 1)) ^ 3) * final \<and>
   frameAngle final 0 = 0 \<and>
   frameAngle final (totalFrames - 1) = final \<and>
   (0 \<le> final \<longrightarrow> i \<le> j \<longrightarrow> frameAngle final i \<le> frameAngle final j)"
proof -
  have a: "frameAngle final 0 = 0"
    by (simp add: frameAngle_def easeOutCubic_def progress_def)
  have b: "frameAngle final (totalFrames - 1) = final"
    by (simp add: frameAngle_def easeOutCubic_def progress_def totalFrames_def)
  have c: "frameAngle final i \<le> frameAngle final j" if "0 \<le> final" and "i \<le> j"
    unfolding frameAngle_def
    using that by (intro mult_right_mono easeOutCubic_mono progress_mono)
  have d: "frameAngle final fr = (1 - (1 - real fr / real (totalFrames - 1)) ^ 3) * final"
    by (simp add: frameAngle_def easeOutCubic_def progress_def)
  show ?thesis
    using a b c d by (simp add: totalFrames_def)
qed

theorem frameAngle_curve_witness:
  "(0::real) \<le> 1 \<and> (0::nat) \<le> 59 \<and>
   frameAngle 1 0 = 0 \<and> frameAngle 1 (totalFrames - 1) = 1 \<and> frameAngle 1 0 \<le> frameAngle 1 59"
  using frameAngle_curve[where final = 1 and fr = 0 and i = 0 and j = 59] by simp

text \<open>
  Claim C5, as amended.  On an empty pool \<open>spinWheel\<close> raises no error: the call
  returns \<open>null\<close> at once, draws no random number and leaves the state as it was.
  \<open>null\<close> is returned for an empty pool only, so that a caller can tell the invalid
  input by testing the result for \<open>null\<close>.
\<close>

theorem spinWheel_empty:
  "spinWheel_call [] s = (Inr None, s) \<and>
   spinWheel [] s = (None, s) \<and>
   (fst (spinWheel users s) = None) = (users = [])"
proof -
  have "fst (spinWheel users s) \<noteq> None" if "users \<noteq> []"
    using spinWheel_value[OF that, of s] by simp
  then show ?thesis
    by (auto simp: spinWheel_call_def spinWheel_def)
qed

text \<open>
  Claim C5 as stated fails: on an empty pool the call of \<open>spinWheel\<close> does not fail
  with an error.  It returns \<open>null\<close>, an ordinary value: a caller that goes on with it
  reads \<open>undefined\<close> from its array and removes position 0 in \<open>orderedForWinner\<close>.
\<close>

theorem spinWheel_empty_counterexample:
  "spinWheel_call ([]::member list) example_state = (Inr None, example_state) \<and>
   js_read (heap example_state 0) (fst (spinWheel ([]::member list) example_state)) = Undefined \<and>
   ToIntegerOrInfinity (fst (spinWheel ([]::member list) example_state)) = 0"
  by (simp add: spinWheel_call_def spinWheel_def js_read_def ToIntegerOrInfinity_def)

text \<open>
  Claim C6.  Given fewer than two members "On the wheel" (in particular one), step 2 of
  \<open>!spin\<close> fails with its error message "Need at least 2 users", and runs no round: no
  random number is drawn and the state is as before.
\<close>

theorem spin_step2_too_few:
  assumes "length onWheelUsers < 2"
  shows "spin_step2 ch onWheelUsers s = Some (NeedAtLeast2 (length onWheelUsers), [], s)"
  using assms by (simp add: spin_step2_def)

theorem spin_step2_too_few_witness:
  "length [\<lparr>member_id = 1, displayName = ''Alice''\<rparr>] < 2 \<and>
   spin_step2 () [\<lparr>member_id = 1, displayName = ''Alice''\<rparr>] example_state
     = Some (NeedAtLeast2 1, [], example_state)"
  using spin_step2_too_few[of "[\<lparr>member_id = 1, displayName = ''Alice''\<rparr>]" "()" example_state]
  by simp

text \<open>
  Claim C7.  For slot 0 of 8 segments, with the 4 rotations and the pointer angle 0 of
  the code, the final rotation is \<open>4 * 2 pi + (0 - (0.5 * (2 pi / 8) - pi / 2))\<close>, which is
  \<open>8 pi + pi / 2 - pi / 8\<close>.
\<close>

theorem finalRotationRad_example:
  "FIXED_ROTATIONS = 4 \<and> POINTER_ANGLE = 0 \<and>
   finalRotationRad 8 0 = rotationFor 4 0 8 0 \<and>
   finalRotationRad 8 0 = 4 * 2 * pi + (0 - (0.5 * (2 * pi / 8) - pi / 2)) \<and>
   finalRotationRad 8 0 = 8 * pi + pi / 2 - pi / 8"
  by (simp add: finalRotationRad_def rotationFor_def winnerMidAngle_def anglePerSegment_def
      FIXED_ROTATIONS_def POINTER_ANGLE_def)

text \<open>
  Claim C8.  \<open>orderedForWinner\<close> leaves its input array unchanged, whatever the winner
  index (an integer in or out of range, or \<open>null\<close>): after the call the array \<open>names\<close>
  (an array of the store: its reference is below \<open>nxt\<close>, allocated before the call)
  holds the elements it held before, in the same order.
\<close>

theorem orderedForWinner_keeps_names:
  assumes "names < nxt s"
  shows "heap (snd (orderedForWinner names wi s)) names = heap s names"
  using assms by (rule orderedForWinner_frame_general)

theorem orderedForWinner_keeps_names_witness:
  "0 < nxt example_state \<and>
   heap (snd (orderedForWinner 0 (Some 1) example_state)) 0
     = [Str ''Alice'', Str ''Bob'', Str ''Charlie'', Str ''Diana'']"
proof -
  have a: "0 < nxt example_state"
    by (simp add: example_state_def)
  have "heap example_state 0 = [Str ''Alice'', Str ''Bob'', Str ''Charlie'', Str ''Diana'']"
    by (simp add: example_state_def)
  with orderedForWinner_keeps_names[OF a, of "Some 1"] a show ?thesis
    by simp
qed

text \<open>
  Claim C9.  For a pool of size \<open>N \<ge> 1\<close> and every number in \<open>[0, 1)\<close> that the random
  source returns, \<open>spinWheel\<close> returns an integer index in \<open>[0, N)\<close>, so that reading
  the pool at that index is in bounds.
\<close>

theorem spinWheel_in_bounds:
  assumes "users \<noteq> []"
  shows "\<exists>i. fst (spinWheel users s) = Some i \<and> 0 \<le> i \<and> i < int (length users) \<and>
             js_get users i = Some (users ! nat i)"
proof -
  from spinWheel_draw[OF assms, of s] obtain i where
    "fst (spinWheel users s) = Some i" and "0 \<le> i" and "i < int (length users)"
    by auto
  then show ?thesis
    by (auto simp: js_get_def)
qed

theorem spinWheel_in_bounds_witness:
  "example_pool \<noteq> [] \<and>
   (\<exists>i. fst (spinWheel example_pool example_state) = Some i \<and> 0 \<le> i \<and>
        i < int (length example_pool) \<and> js_get example_pool i = Some (example_pool ! nat i))"
proof -
  have a: "example_pool \<noteq> []"
    by (simp add: example_pool_def)
  from spinWheel_in_bounds[OF a] a show ?thesis
    by blast
qed

text \<open>
  Claim C10.  \<open>createCssSpinAnimation\<close> ignores its winner index and is
  \<open>createSpinningAnimation\<close> at index 0, for every list of names, every winner index
  and every channel.  Whatever index is passed: for an empty list nothing is made
  (\<open>null\<close>), for a list with an \<open>undefined\<close> name the drawing throws, and otherwise
  the animation of 60 frames is sent, whose last five frames highlight slot 0 and no
  other frame highlights a slot, whose frames are turned by the eased share of the final
  rotation for slot 0, and whose last frame has the middle of slot 0 at the angle of
  the pointer.
\<close>

theorem createCssSpinAnimation_slot_zero:
  "createCssSpinAnimation names anyIndex ch = createSpinningAnimation names 0 ch \<and>
   createCssSpinAnimation names anyIndex ch = createCssSpinAnimation names otherIndex ch \<and>
   (case createCssSpinAnimation names anyIndex ch of
      Inl e \<Rightarrow> names \<noteq> [] \<and> Undefined \<in> set names
    | Inr None \<Rightarrow> names = []
    | Inr (Some m) \<Rightarrow>
        names \<noteq> [] \<and> Undefined \<notin> set names \<and> channel m = ch \<and>
        map (labels \<circ> picture) (frames m) = replicate 60 names \<and>
        map (highlighted \<circ> picture) (frames m) = replicate 55 None @ replicate 5 (Some 0) \<and>
        map (turned \<circ> picture) (frames m)
          = map (frameAngle (finalRotationRad (length names) 0)) [0..<60] \<and>
        map (pointer \<circ> picture) (frames m) = replicate 60 (Some POINTER_ANGLE) \<and>
        map delay (frames m) = map frameDelay [0..<60] \<and>
        congruent_mod_turn
          (winnerMidAngle (length names) 0 + turned (picture (last (frames m)))) POINTER_ANGLE)"
proof -
  have eq: "createCssSpinAnimation names anyIndex ch = createSpinningAnimation names 0 ch"
    and ind: "createCssSpinAnimation names anyIndex ch
                = createCssSpinAnimation names otherIndex ch"
    by (simp_all add: createCssSpinAnimation_def)
  consider "names = []" | "names \<noteq> []" "Undefined \<in> set names"
    | "names \<noteq> []" "Undefined \<notin> set names"
    by blast
  then have "case createSpinningAnimation names 0 ch of
      Inl e \<Rightarrow> names \<noteq> [] \<and> Undefined \<in> set names
    | Inr None \<Rightarrow> names = []
    | Inr (Some m) \<Rightarrow>
        names \<noteq> [] \<and> Undefined \<notin> set names \<and> channel m = ch \<and>
        map (labels \<circ> picture) (frames m) = replicate 60 names \<and>
        map (highlighted \<circ> picture) (frames m) = replicate 55 None @ replicate 5 (Some 0) \<and>
        map (turned \<circ> picture) (frames m)
          = map (frameAngle (finalRotationRad (length names) 0)) [0..<60] \<and>
        map (pointer \<circ> picture) (frames m) = replicate 60 (Some POINTER_ANGLE) \<and>
        map delay (frames m) = map frameDelay [0..<60] \<and>
        congruent_mod_turn
          (winnerMidAngle (length names) 0 + turned (picture (last (frames m)))) POINTER_ANGLE"
  proof cases
    case 1
    then show ?thesis
      by (simp add: createSpinningAnimation_def)
  next
    case 2
    then show ?thesis
      by (simp add: createSpinningAnimation_undefined)
  next
    case 3
    have h: "map (\<lambda>fr. if totalFrames - 5 \<le> fr \<and> 0 < length names then Some (0::int) else None)
               [0..<totalFrames]
             = replicate 55 None @ replicate 5 (Some 0)"
      using 3(1) highlight_frames[of "0::int"] by simp
    have l: "congruent_mod_turn
               (winnerMidAngle (length names) 0
                  + frameAngle (finalRotationRad (length names) 0) (totalFrames - 1))
               POINTER_ANGLE"
      unfolding frameAngle_last by (rule rotation_lands)
    have n: "length [0..<totalFrames] = 60"
      by (simp add: totalFrames_def)
    have t: "[0..<totalFrames] \<noteq> []"
      by (simp add: totalFrames_def)
    show ?thesis
      using 3 h l
      by (simp add: createSpinningAnimation_defined comp_def last_map[OF t] last_frames
          map_replicate_const n)
        (simp add: totalFrames_def)
  qed
  with eq ind show ?thesis
    by simp
qed

text \<open>An animation is made: two names, and 7 passed as the winner index.\<close>

theorem createCssSpinAnimation_slot_zero_witness:
  "\<exists>m. createCssSpinAnimation [Str ''Alice'', Str ''Bob''] (7::int) () = Inr (Some m) \<and>
       map (highlighted \<circ> picture) (frames m) = replicate 55 None @ replicate 5 (Some 0) \<and>
       congruent_mod_turn
         (winnerMidAngle 2 0 + turned (picture (last (frames m)))) POINTER_ANGLE"
  using createCssSpinAnimation_slot_zero[of "[Str ''Alice'', Str ''Bob'']" "7::int" "()" "7::int"]
  by (auto split: sum.splits option.splits simp: numeral_2_eq_2)

end
